theory Spec2Isabelle
  imports Main "HOL-Library.Sublist"
begin

section \<open>The table maintenance tool of \<^verbatim>\<open>src/lib/db/schema/computers.ts\<close>\<close>

text \<open>
  The cleanup script is embedded function by function. A JavaScript string is a
  \<^typ>\<open>string\<close>: a list of code units, here the 256 code units that \<^typ>\<open>char\<close> has
  (Latin-1). \<^verbatim>\<open>null\<close> and \<^verbatim>\<open>undefined\<close> are \<^term>\<open>None\<close>. An \<^verbatim>\<open>async\<close> function is
  a function on the state of the process and of the store; what it throws is the
  \<^term>\<open>Inl\<close> of its result.
\<close>

subsection \<open>Strings: \<^verbatim>\<open>split\<close>, \<^verbatim>\<open>trim\<close>, \<^verbatim>\<open>toLowerCase\<close>, \<^verbatim>\<open>parseInt\<close>\<close>

text \<open>
  White space and line terminators of ECMAScript below code unit 256: TAB, LF, VT, FF, CR,
  SPACE and NBSP.
\<close>

definition isWhiteSpace :: "char \<Rightarrow> bool" where
  "isWhiteSpace c = ((of_char c :: nat) \<in> {9, 10, 11, 12, 13, 32, 160})"

definition trim :: "string \<Rightarrow> string" where
  "trim s = rev (dropWhile isWhiteSpace (rev (dropWhile isWhiteSpace s)))"

text \<open>
  \<^verbatim>\<open>s.split(c)\<close> for a one-character separator: the pieces between the separators, so
  that the empty string gives one empty piece.
\<close>

fun split :: "char \<Rightarrow> string \<Rightarrow> string list" where
  "split c [] = [[]]"
| "split c (x # xs) =
     (if x = c then [] # split c xs
      else (case split c xs of [] \<Rightarrow> [[x]] | w # ws \<Rightarrow> (x # w) # ws))"

text \<open>
  \<^verbatim>\<open>toLowerCase\<close> on Latin-1: the letters A to Z and the accented capitals 192 to 222
  (without the multiplication sign 215) move up by 32.
\<close>

definition toLowerChar :: "char \<Rightarrow> char" where
  "toLowerChar c =
     (let n = (of_char c :: nat)
      in if (65 \<le> n \<and> n \<le> 90) \<or> (192 \<le> n \<and> n \<le> 222 \<and> n \<noteq> 215)
         then char_of (n + 32) else c)"

definition toLowerCase :: "string \<Rightarrow> string" where
  "toLowerCase s = map toLowerChar s"

definition isDigit :: "char \<Rightarrow> bool" where
  "isDigit c = (48 \<le> (of_char c :: nat) \<and> (of_char c :: nat) \<le> 57)"

definition digitValue :: "char \<Rightarrow> nat" where
  "digitValue c = of_char c - 48"

definition digitsValue :: "string \<Rightarrow> nat" where
  "digitsValue ds = foldl (\<lambda>a c. 10 * a + digitValue c) 0 ds"

text \<open>
  \<^verbatim>\<open>parseInt(s, 10)\<close>: leading white space is skipped, one sign is read, then the longest
  run of decimal digits; what follows is ignored. With no digit the result is \<^verbatim>\<open>NaN\<close>,
  here \<^term>\<open>None\<close>. The value is kept exact: the rounding of JavaScript numbers
  above \<open>2^53\<close> is monotone, so it changes no comparison with an array length.
\<close>

definition parseInt :: "string \<Rightarrow> int option" where
  "parseInt s =
     (let t = dropWhile isWhiteSpace s;
          neg = (case t of [] \<Rightarrow> False | c # _ \<Rightarrow> c = CHR ''-'');
          u = (case t of [] \<Rightarrow> []
               | c # r \<Rightarrow> if c = CHR ''+'' \<or> c = CHR ''-'' then r else t);
          ds = takeWhile isDigit u
      in if ds = [] then None
         else Some (if neg then - int (digitsValue ds) else int (digitsValue ds)))"

subsection \<open>Statements, errors, console lines\<close>

text \<open>
  The statements that the script sends to the store, the errors that a statement can
  raise, and one constructor for each message of the script. Blank lines, rulers, colours
  and icons are left out, and so is what \<^verbatim>\<open>prompt\<close> and the menu of \<^verbatim>\<open>promptChoice\<close>
  write; \<open>ErrorDuringExit\<close> is the line of the outer \<^verbatim>\<open>catch\<close> of \<^verbatim>\<open>gracefulExit\<close>.
\<close>

datatype stmt =
    SelectTables
  | SelectSequenceTable
  | CountRows string
  | DeleteFrom string
  | DropTable string
  | DeleteSequence
  | PragmaForeignKeys bool

datatype error = Fault stmt | NoSuchTable string

datatype operation = Delete | Drop

datatype msg =
    Banner
  | NoTablesFound
  | TablesNotFound "string list"
  | Cancelled
  | NotImplemented
  | NoTablesToProcess
  | TableStatsShown operation "(string \<times> nat) list"
  | DryRun
  | WarningText string
  | SectionDestructive operation
  | RowsDeleted string nat
  | Dropped string
  | SequencesReset
  | Results operation nat nat
  | ErrorDuringCleanup error
  | Restored
  | FailedReenable error
  | ForceClosing
  | Received string
  | CouldNotRestore
  | Goodbye
  | ErrorDuringExit
  | Unexpected error

subsection \<open>\<^verbatim>\<open>filterTables\<close>, \<^verbatim>\<open>promptYesNo\<close>, \<^verbatim>\<open>promptChoice\<close>\<close>

text \<open>
  \<^verbatim>\<open>requested\<close> of \<^verbatim>\<open>filterTables\<close>: the pieces between commas, trimmed, the empty
  ones dropped.
\<close>

definition requestedNames :: "string \<Rightarrow> string list" where
  "requestedNames requestedTables =
     filter (\<lambda>t. t \<noteq> []) (map trim (split CHR '','' requestedTables))"

text \<open>
  \<^verbatim>\<open>filterTables\<close> returns the selection and the lines it prints. An absent or empty
  request string is falsy and gives every discovered table.
\<close>

definition filterTables :: "string list \<Rightarrow> string option \<Rightarrow> string list \<times> msg list" where
  "filterTables allTables requestedTables =
     (case requestedTables of
        None \<Rightarrow> (allTables, [])
      | Some r \<Rightarrow>
          if r = [] then (allTables, [])
          else
            (let requested = requestedNames r;
                 filtered = filter (\<lambda>t. t \<in> set allTables) requested;
                 notFound = filter (\<lambda>t. t \<notin> set allTables) requested
             in (filtered, if length notFound > 0 then [TablesNotFound notFound] else [])))"

text \<open>
  \<^verbatim>\<open>promptYesNo\<close>: the answer read by \<^verbatim>\<open>prompt\<close> is the argument \<open>response\<close>
  (\<^term>\<open>None\<close> when \<^verbatim>\<open>prompt\<close> gives \<^verbatim>\<open>null\<close>).
\<close>

definition promptYesNo :: "string option \<Rightarrow> bool \<Rightarrow> bool" where
  "promptYesNo response defaultYes =
     (case response of
        None \<Rightarrow> defaultYes
      | Some r \<Rightarrow>
          if r = [] then defaultYes
          else toLowerCase r = ''y'' \<or> toLowerCase r = ''yes'')"

text \<open>\<^verbatim>\<open>response || d\<close>: \<^verbatim>\<open>null\<close> and the empty string are falsy.\<close>

definition orDefault :: "string option \<Rightarrow> string \<Rightarrow> string" where
  "orDefault response d =
     (case response of None \<Rightarrow> d | Some x \<Rightarrow> if x = [] then d else x)"

text \<open>A comparison with \<^verbatim>\<open>NaN\<close> is false, so \<^verbatim>\<open>NaN\<close> takes the last \<^verbatim>\<open>return\<close>.\<close>

definition promptChoice :: "string option \<Rightarrow> string list \<Rightarrow> int" where
  "promptChoice response choices =
     (case parseInt (orDefault response ''0'') of
        None \<Rightarrow> - 1
      | Some choice \<Rightarrow>
          if choice \<ge> 1 \<and> choice \<le> int (length choices) then choice - 1 else - 1)"

subsection \<open>The database behind \<^verbatim>\<open>db\<close>\<close>

text \<open>
  The store is an external collaborator. Its model keeps what the script can observe: the
  user tables that the discovery query lists, each with its number of rows; whether
  \<^verbatim>\<open>sqlite_sequence\<close> exists; the foreign-key switch of the connection; every statement
  sent so far, oldest first; and \<open>faulty\<close>, which says for each position in that
  sequence whether the statement sent there is rejected (a lost connection, a syntax
  error, a lock). A rejected statement changes nothing. \<^verbatim>\<open>DELETE\<close> empties the named
  table only (enforcement is off when the script deletes, triggers are not modelled).
  The rest of the record is the state of the process: the console, the two module-level
  variables of the exit handling, and the local flag of \<^verbatim>\<open>cleanup\<close>.
\<close>

record state =
  tbls :: "(string \<times> nat) list"
  sequenceTable :: bool
  foreignKeys :: bool
  issued :: "stmt list"
  faulty :: "nat \<Rightarrow> bool"
  console :: "msg list"
  isCleaningUp :: bool
  cleanupPromise :: bool
  foreignKeysDisabled :: bool

definition say :: "msg \<Rightarrow> state \<Rightarrow> state" where
  "say m s = s\<lparr>console := console s @ [m]\<rparr>"

text \<open>Sending a statement records it and tells whether it is rejected.\<close>

definition issue :: "stmt \<Rightarrow> state \<Rightarrow> bool \<times> state" where
  "issue q s = (faulty s (length (issued s)), s\<lparr>issued := issued s @ [q]\<rparr>)"

text \<open>\<^verbatim>\<open>db.all\<close> of the three queries of the script.\<close>

definition allTableNames :: "state \<Rightarrow> (error + string list) \<times> state" where
  "allTableNames s =
     (case issue SelectTables s of
        (rejected, s1) \<Rightarrow>
          if rejected then (Inl (Fault SelectTables), s1)
          else (Inr (map fst (tbls s1)), s1))"

definition allCount :: "string \<Rightarrow> state \<Rightarrow> (error + nat list) \<times> state" where
  "allCount tableName s =
     (case issue (CountRows tableName) s of
        (rejected, s1) \<Rightarrow>
          if rejected then (Inl (Fault (CountRows tableName)), s1)
          else (case map_of (tbls s1) tableName of
                  None \<Rightarrow> (Inl (NoSuchTable tableName), s1)
                | Some n \<Rightarrow> (Inr [n], s1)))"

definition allSequenceTable :: "state \<Rightarrow> (error + string list) \<times> state" where
  "allSequenceTable s =
     (case issue SelectSequenceTable s of
        (rejected, s1) \<Rightarrow>
          if rejected then (Inl (Fault SelectSequenceTable), s1)
          else (Inr (if sequenceTable s1 then [''sqlite_sequence''] else []), s1))"

text \<open>What an accepted statement of \<^verbatim>\<open>db.run\<close> does.\<close>

fun effect :: "stmt \<Rightarrow> state \<Rightarrow> error + state" where
  "effect (DeleteFrom t) s =
     (if t \<in> fst ` set (tbls s)
      then Inr (s\<lparr>tbls := map (\<lambda>(n, c). if n = t then (n, 0) else (n, c)) (tbls s)\<rparr>)
      else Inl (NoSuchTable t))"
| "effect (DropTable t) s = Inr (s\<lparr>tbls := filter (\<lambda>(n, c). n \<noteq> t) (tbls s)\<rparr>)"
| "effect DeleteSequence s =
     (if sequenceTable s then Inr s else Inl (NoSuchTable ''sqlite_sequence''))"
| "effect (PragmaForeignKeys b) s = Inr (s\<lparr>foreignKeys := b\<rparr>)"
| "effect SelectTables s = Inr s"
| "effect SelectSequenceTable s = Inr s"
| "effect (CountRows t) s = Inr s"

definition run :: "stmt \<Rightarrow> state \<Rightarrow> (error + unit) \<times> state" where
  "run q s =
     (case issue q s of
        (rejected, s1) \<Rightarrow>
          if rejected then (Inl (Fault q), s1)
          else (case effect q s1 of Inl e \<Rightarrow> (Inl e, s1) | Inr s2 \<Rightarrow> (Inr (), s2)))"


text \<open>The statements sent between two states of one run.\<close>

definition issuedSince :: "state \<Rightarrow> state \<Rightarrow> stmt list" where
  "issuedSince s s' = drop (length (issued s)) (issued s')"

definition printedSince :: "state \<Rightarrow> state \<Rightarrow> msg list" where
  "printedSince s s' = drop (length (console s)) (console s')"

subsection \<open>Database functions\<close>

definition getAllTables :: "state \<Rightarrow> (error + string list) \<times> state" where
  "getAllTables s = allTableNames s"

record tableStats =
  name :: string
  rowCount :: nat

text \<open>\<^verbatim>\<open>result[0]?.count ?? 0\<close>\<close>

definition firstCount :: "nat list \<Rightarrow> nat" where
  "firstCount result = (case result of [] \<Rightarrow> 0 | c # _ \<Rightarrow> c)"

fun getTableStats :: "string list \<Rightarrow> state \<Rightarrow> tableStats list \<times> state" where
  "getTableStats [] s = ([], s)"
| "getTableStats (tableName # rest) s =
     (case allCount tableName s of
        (Inr result, s1) \<Rightarrow>
          (case getTableStats rest s1 of
             (stats, s2) \<Rightarrow> (\<lparr>name = tableName, rowCount = firstCount result\<rparr> # stats, s2))
      | (Inl _, s1) \<Rightarrow>
          (case getTableStats rest s1 of
             (stats, s2) \<Rightarrow> (\<lparr>name = tableName, rowCount = 0\<rparr> # stats, s2)))"

definition hasSequenceTable :: "state \<Rightarrow> (error + bool) \<times> state" where
  "hasSequenceTable s =
     (case allSequenceTable s of
        (Inl e, s1) \<Rightarrow> (Inl e, s1)
      | (Inr result, s1) \<Rightarrow> (Inr (length result > 0), s1))"

subsection \<open>Operation functions\<close>

text \<open>The loop of \<^verbatim>\<open>deleteTables\<close>, with its local \<^verbatim>\<open>totalRows\<close> as an argument.\<close>

fun deleteLoop :: "string list \<Rightarrow> nat \<Rightarrow> state \<Rightarrow> (error + nat) \<times> state" where
  "deleteLoop [] totalRows s = (Inr totalRows, s)"
| "deleteLoop (tableName # rest) totalRows s =
     (case allCount tableName s of
        (Inl e, s1) \<Rightarrow> (Inl e, s1)
      | (Inr before, s1) \<Rightarrow>
          (case run (DeleteFrom tableName) s1 of
             (Inl e, s2) \<Rightarrow> (Inl e, s2)
           | (Inr _, s2) \<Rightarrow>
               deleteLoop rest (totalRows + firstCount before)
                 (say (RowsDeleted tableName (firstCount before)) s2)))"

definition deleteTables :: "string list \<Rightarrow> state \<Rightarrow> (error + nat) \<times> state" where
  "deleteTables tables s = deleteLoop tables 0 s"

fun dropTables :: "string list \<Rightarrow> state \<Rightarrow> (error + unit) \<times> state" where
  "dropTables [] s = (Inr (), s)"
| "dropTables (tableName # rest) s =
     (case run (DropTable tableName) s of
        (Inl e, s1) \<Rightarrow> (Inl e, s1)
      | (Inr _, s1) \<Rightarrow> dropTables rest (say (Dropped tableName) s1))"

definition resetSequences :: "state \<Rightarrow> (error + unit) \<times> state" where
  "resetSequences s =
     (case hasSequenceTable s of
        (Inl e, s1) \<Rightarrow> (Inl e, s1)
      | (Inr has, s1) \<Rightarrow>
          if has
          then (case run DeleteSequence s1 of
                  (Inl e, s2) \<Rightarrow> (Inl e, s2)
                | (Inr _, s2) \<Rightarrow> (Inr (), say SequencesReset s2))
          else (Inr (), s1))"

subsection \<open>Display functions\<close>

definition displayBanner :: "state \<Rightarrow> state" where
  "displayBanner s = say Banner s"

definition displayTableStats :: "tableStats list \<Rightarrow> operation \<Rightarrow> state \<Rightarrow> state" where
  "displayTableStats stats operation s =
     say (TableStatsShown operation (map (\<lambda>st. (name st, rowCount st)) stats)) s"

text \<open>The two lines of \<^verbatim>\<open>displayWarning\<close>, in the wording of the script.\<close>

definition warningLines :: "operation \<Rightarrow> msg list" where
  "warningLines operation =
     (if operation = Drop
      then [WarningText ''WARNING: This will DROP tables entirely (schema and data)!'',
            WarningText ''This action is IRREVERSIBLE!'']
      else [WarningText ''This will DELETE ALL DATA from the selected tables!'',
            WarningText ''This action cannot be undone!''])"

definition displayWarning :: "operation \<Rightarrow> state \<Rightarrow> state" where
  "displayWarning operation s = s\<lparr>console := console s @ warningLines operation\<rparr>"

text \<open>The duration of \<^verbatim>\<open>CleanupStats\<close> is wall-clock time and is left out.\<close>

definition displayResults :: "nat \<Rightarrow> nat \<Rightarrow> operation \<Rightarrow> state \<Rightarrow> state" where
  "displayResults tablesProcessed totalRowsDeleted operation s =
     say (Results operation tablesProcessed totalRowsDeleted) s"

subsection \<open>The main cleanup function\<close>

text \<open>
  The command line flags, as \<^verbatim>\<open>parseArgs\<close> delivers them, and the answers that the
  user gives to the two prompts of a run (the menu and the confirmation).
\<close>

record "values" =
  confirm :: bool
  tables :: "string option"
  dry_run :: bool
  drop :: bool
  interactive :: bool

record answers =
  menuAnswer :: "string option"
  confirmAnswer :: "string option"

datatype completion = Returns | Throws error | Exits nat

text \<open>A string is truthy when it is present and not empty.\<close>

definition truthy :: "string option \<Rightarrow> bool" where
  "truthy x = (case x of None \<Rightarrow> False | Some r \<Rightarrow> r \<noteq> [])"

text \<open>
  Lines 415 to 441 of \<^verbatim>\<open>cleanup\<close>: the tables to process, or the status of
  \<^verbatim>\<open>process.exit\<close>.
\<close>

definition chooseTables ::
  "values \<Rightarrow> answers \<Rightarrow> operation \<Rightarrow> string list \<Rightarrow> state \<Rightarrow> (nat + string list) \<times> state" where
  "chooseTables vals user operation allTables s =
     (if truthy (tables vals)
      then (case filterTables allTables (tables vals) of
              (filtered, lines) \<Rightarrow> (Inr filtered, s\<lparr>console := console s @ lines\<rparr>))
      else if interactive vals \<and> \<not> confirm vals
      then
        (let choice = promptChoice (menuAnswer user)
               [if operation = Drop then ''Drop all tables'' else ''Clean all tables'',
                ''Select specific tables'', ''Cancel'']
         in if choice = - 1 \<or> choice = 2 then (Inl 0, say Cancelled s)
            else if choice = 1 then (Inl 0, say NotImplemented s)
            else (Inr allTables, s))
      else (Inr allTables, s))"

text \<open>
  The body of the \<^verbatim>\<open>try\<close> block (lines 485 to 509), with lines 489 to 494 as
  \<open>performOperation\<close>; the total of a drop is the initial value of
  \<^verbatim>\<open>totalRowsDeleted\<close>. \<^term>\<open>Inl\<close> is the error that the \<^verbatim>\<open>catch\<close> block receives.
\<close>

definition performOperation ::
  "operation \<Rightarrow> string list \<Rightarrow> state \<Rightarrow> (error + nat) \<times> state" where
  "performOperation operation tablesToProcess s =
     (if operation = Drop
      then (case dropTables tablesToProcess s of
              (Inl e, s1) \<Rightarrow> (Inl e, s1)
            | (Inr _, s1) \<Rightarrow> (Inr 0, s1))
      else (case deleteTables tablesToProcess s of
              (Inl e, s1) \<Rightarrow> (Inl e, s1)
            | (Inr totalRowsDeleted, s1) \<Rightarrow>
                (case resetSequences s1 of
                   (Inl e, s2) \<Rightarrow> (Inl e, s2)
                 | (Inr _, s2) \<Rightarrow> (Inr totalRowsDeleted, s2))))"

definition cleanupTry :: "operation \<Rightarrow> string list \<Rightarrow> state \<Rightarrow> (error + unit) \<times> state" where
  "cleanupTry operation tablesToProcess s =
     (case run (PragmaForeignKeys False) s of
        (Inl e, s1) \<Rightarrow> (Inl e, s1)
      | (Inr _, s1) \<Rightarrow>
          (case performOperation operation tablesToProcess
                  (s1\<lparr>foreignKeysDisabled := True\<rparr>) of
             (Inl e, s2) \<Rightarrow> (Inl e, s2)
           | (Inr totalRowsDeleted, s2) \<Rightarrow>
               (case run (PragmaForeignKeys True) s2 of
                  (Inl e, s3) \<Rightarrow> (Inl e, s3)
                | (Inr _, s3) \<Rightarrow>
                    (Inr (),
                     displayResults (length tablesToProcess) totalRowsDeleted operation
                       (s3\<lparr>foreignKeysDisabled := False\<rparr>)))))"

text \<open>The \<^verbatim>\<open>catch\<close> block (lines 510 to 533); it ends by throwing \<open>error\<close> again.\<close>

definition cleanupCatch :: "error \<Rightarrow> state \<Rightarrow> completion \<times> state" where
  "cleanupCatch err s =
     (let s1 = say (ErrorDuringCleanup err) s;
          s2 = (if foreignKeysDisabled s1
                then (case run (PragmaForeignKeys True) s1 of
                        (Inr _, s') \<Rightarrow> say Restored s'
                      | (Inl fkError, s') \<Rightarrow> say (FailedReenable fkError) s')
                else s1)
      in (Throws err, s2))"

text \<open>
  Lines 478 to 533: the destructive phase. The local \<^verbatim>\<open>foreignKeysDisabled\<close> starts as
  \<^verbatim>\<open>false\<close>; it is kept in the state so that its last value can be observed.
\<close>

definition destructivePhase :: "operation \<Rightarrow> string list \<Rightarrow> state \<Rightarrow> completion \<times> state" where
  "destructivePhase operation tablesToProcess s =
     (case cleanupTry operation tablesToProcess
             (say (SectionDestructive operation) (s\<lparr>foreignKeysDisabled := False\<rparr>)) of
        (Inr _, s1) \<Rightarrow> (Returns, s1)
      | (Inl err, s1) \<Rightarrow> cleanupCatch err s1)"

definition cleanup :: "values \<Rightarrow> answers \<Rightarrow> state \<Rightarrow> completion \<times> state" where
  "cleanup vals user s =
     (case getAllTables (if interactive vals \<and> \<not> confirm vals then displayBanner s else s) of
        (Inl e, s1) \<Rightarrow> (Throws e, s1)
      | (Inr allTables, s1) \<Rightarrow>
          if length allTables = 0 then (Exits 0, say NoTablesFound s1)
          else
            (let operation = (if drop vals then Drop else Delete)
             in case chooseTables vals user operation allTables s1 of
                  (Inl status, s2) \<Rightarrow> (Exits status, s2)
                | (Inr tablesToProcess, s2) \<Rightarrow>
                    if length tablesToProcess = 0 then (Exits 0, say NoTablesToProcess s2)
                    else
                      (case getTableStats tablesToProcess s2 of
                         (stats, s3) \<Rightarrow>
                           if dry_run vals
                           then (Exits 0, say DryRun (displayTableStats stats operation s3))
                           else
                             (case (if \<not> confirm vals
                                    then (promptYesNo (confirmAnswer user) False,
                                          displayWarning operation
                                            (displayTableStats stats operation s3))
                                    else (True, displayTableStats stats operation s3)) of
                                (False, s4) \<Rightarrow> (Exits 0, say Cancelled s4)
                              | (True, s4) \<Rightarrow>
                                  destructivePhase operation tablesToProcess s4))))"

subsection \<open>Exit handling and entry point\<close>

text \<open>
  \<^verbatim>\<open>gracefulExit\<close>. Lines 549 to 552 come first, before any \<^verbatim>\<open>await\<close>: the handler
  marks itself as running and prints its notice.
\<close>

definition gracefulExitEnter :: "string \<Rightarrow> state \<Rightarrow> state" where
  "gracefulExitEnter signal s = say (Received signal) (s\<lparr>isCleaningUp := True\<rparr>)"

text \<open>
  When \<^verbatim>\<open>cleanupPromise\<close> is set the handler then waits for it, five seconds at most.
  During that wait the cleanup that is still in flight goes on: \<open>inFlight\<close> is what it does
  to the state until the wait is over, the identity when it has nothing left to do. The
  inner \<^verbatim>\<open>try\<close> catches a rejected pragma, so nothing reaches the outer \<^verbatim>\<open>catch\<close>, and
  every path of the function ends in \<^verbatim>\<open>process.exit\<close>, which does not return: status 1
  on re-entry, status 0 otherwise.
\<close>

definition gracefulExit :: "string \<Rightarrow> (state \<Rightarrow> state) \<Rightarrow> state \<Rightarrow> completion \<times> state" where
  "gracefulExit signal inFlight s =
     (if isCleaningUp s then (Exits 1, say ForceClosing s)
      else
        (case run (PragmaForeignKeys True)
                (if cleanupPromise s then inFlight (gracefulExitEnter signal s)
                 else gracefulExitEnter signal s) of
           (Inr _, s1) \<Rightarrow> (Exits 0, say Goodbye (say Restored s1))
         | (Inl _, s1) \<Rightarrow> (Exits 0, say Goodbye (say CouldNotRestore s1))))"

text \<open>
  The entry point (lines 599 to 610): \<^verbatim>\<open>cleanup().then(...).catch(...)\<close>. When the
  \<^verbatim>\<open>catch\<close> handler runs, \<^verbatim>\<open>cleanup\<close> has ended and \<^verbatim>\<open>cleanupPromise\<close>, still set, settles
  as soon as the handler returns: nothing is in flight. In the handler,
  \<^verbatim>\<open>process.exit(1)\<close> runs only when \<^verbatim>\<open>gracefulExit\<close> returns.
\<close>

definition entryPoint :: "values \<Rightarrow> answers \<Rightarrow> state \<Rightarrow> completion \<times> state" where
  "entryPoint vals user s =
     (case cleanup vals user (s\<lparr>cleanupPromise := True\<rparr>) of
        (Returns, s1) \<Rightarrow> (Returns, s1\<lparr>cleanupPromise := False\<rparr>)
      | (Exits status, s1) \<Rightarrow> (Exits status, s1)
      | (Throws err, s1) \<Rightarrow>
          (case gracefulExit ''error'' (\<lambda>x. x) (say (Unexpected err) s1) of
             (Returns, s2) \<Rightarrow> (Exits 1, s2)
           | (Exits status, s2) \<Rightarrow> (Exits status, s2)
           | (Throws e', s2) \<Rightarrow> (Exits 1, s2)))"

text \<open>The process at start: nothing sent, nothing printed, no signal being handled.\<close>

definition start ::
  "(string \<times> nat) list \<Rightarrow> bool \<Rightarrow> bool \<Rightarrow> (nat \<Rightarrow> bool) \<Rightarrow> state" where
  "start ts seq fk bad =
     \<lparr>tbls = ts, sequenceTable = seq, foreignKeys = fk, issued = [], faulty = bad,
      console = [], isCleaningUp = False, cleanupPromise = False,
      foreignKeysDisabled = False\<rparr>"

subsection \<open>Notions used by the properties\<close>

text \<open>The number of rows of a table, zero for a table that does not exist.\<close>

definition rowsOf :: "state \<Rightarrow> string \<Rightarrow> nat" where
  "rowsOf s t = (case map_of (tbls s) t of None \<Rightarrow> 0 | Some n \<Rightarrow> n)"

definition countOrZero :: "(nat \<Rightarrow> bool) \<Rightarrow> (string \<times> nat) list \<Rightarrow> nat \<Rightarrow> string \<Rightarrow> nat" where
  "countOrZero bad ts k t =
     (if bad k then 0 else case map_of ts t of None \<Rightarrow> 0 | Some n \<Rightarrow> n)"

text \<open>
  The statements and the console lines of the work between the two pragmas.
\<close>

fun bodyStmt :: "stmt \<Rightarrow> bool" where
  "bodyStmt (PragmaForeignKeys b) = False"
| "bodyStmt SelectTables = False"
| "bodyStmt q = True"

fun bodyLine :: "msg \<Rightarrow> bool" where
  "bodyLine (RowsDeleted t n) = True"
| "bodyLine (Dropped t) = True"
| "bodyLine SequencesReset = True"
| "bodyLine m = False"

text \<open>
  \<open>bodySteps s s'\<close>: from \<open>s\<close> to \<open>s'\<close> the process has sent such statements and printed
  such lines only, and has not touched its own variables.
\<close>

definition bodySteps :: "state \<Rightarrow> state \<Rightarrow> bool" where
  "bodySteps s s' \<longleftrightarrow>
     (\<exists>qs ms. issued s' = issued s @ qs \<and> console s' = console s @ ms \<and>
        (\<forall>q\<in>set qs. bodyStmt q) \<and> (\<forall>m\<in>set ms. bodyLine m)) \<and>
     faulty s' = faulty s \<and> isCleaningUp s' = isCleaningUp s \<and>
     cleanupPromise s' = cleanupPromise s \<and> foreignKeysDisabled s' = foreignKeysDisabled s"



text \<open>
  The report line of the statistics pass of a run that starts in \<open>s\<close> and selects
  \<open>ts\<close>: the discovery query is the next statement of the run, and the count queries of
  the tables follow it, one for each table in order.
\<close>

definition statsReport :: "operation \<Rightarrow> string list \<Rightarrow> state \<Rightarrow> msg" where
  "statsReport operation ts s =
     TableStatsShown operation
       (map (\<lambda>(k, t). (t, countOrZero (faulty s) (tbls s) k t))
          (enumerate (Suc (length (issued s))) ts))"

text \<open>
  The store of the scenarios of the specification: \<open>users\<close> with 10 rows and
  \<open>sessions\<close> with 3, listed by name.
\<close>

definition scenario :: "(nat \<Rightarrow> bool) \<Rightarrow> state" where
  "scenario bad = start [(''sessions'', 3), (''users'', 10)] True True bad"

section \<open>Properties\<close>

subsection \<open>What the database calls change\<close>

lemma allCount_state: "snd (allCount t s) = s\<lparr>issued := issued s @ [CountRows t]\<rparr>"
  by (simp add: allCount_def issue_def split: option.splits)

lemma allTableNames_state: "snd (allTableNames s) = s\<lparr>issued := issued s @ [SelectTables]\<rparr>"
  by (simp add: allTableNames_def issue_def)

lemma allCount_fst:
  "(case fst (allCount t s) of Inr result \<Rightarrow> firstCount result | Inl _ \<Rightarrow> 0) =
     countOrZero (faulty s) (tbls s) (length (issued s)) t"
  by (simp add: allCount_def issue_def countOrZero_def firstCount_def split: option.splits)

subsection \<open>The statistics pass\<close>

lemma getTableStats_fst:
  "fst (getTableStats ts s) =
     map (\<lambda>(k, t). \<lparr>name = t, rowCount = countOrZero (faulty s) (tbls s) k t\<rparr>)
       (enumerate (length (issued s)) ts)"
proof (induction ts arbitrary: s)
  case Nil
  show ?case by simp
next
  case (Cons t rest)
  obtain r s1 where a: "allCount t s = (r, s1)" by (cases "allCount t s")
  have s1: "s1 = s\<lparr>issued := issued s @ [CountRows t]\<rparr>"
    using allCount_state [of t s] a by simp
  have r: "(case r of Inr result \<Rightarrow> firstCount result | Inl _ \<Rightarrow> 0) =
     countOrZero (faulty s) (tbls s) (length (issued s)) t"
    using allCount_fst [of t s] a by simp
  have ih: "fst (getTableStats rest s1) =
     map (\<lambda>(k, t). \<lparr>name = t, rowCount = countOrZero (faulty s) (tbls s) k t\<rparr>)
       (enumerate (Suc (length (issued s))) rest)"
    using Cons.IH [of s1] by (simp add: s1)
  show ?case
    using a r ih by (cases r; cases "getTableStats rest s1") auto
qed

lemma getTableStats_snd:
  "snd (getTableStats ts s) = s\<lparr>issued := issued s @ map CountRows ts\<rparr>"
proof (induction ts arbitrary: s)
  case Nil
  show ?case by simp
next
  case (Cons t rest)
  obtain r s1 where a: "allCount t s = (r, s1)" by (cases "allCount t s")
  have s1: "s1 = s\<lparr>issued := issued s @ [CountRows t]\<rparr>"
    using allCount_state [of t s] a by simp
  have ih: "snd (getTableStats rest s1) = s1\<lparr>issued := issued s1 @ map CountRows rest\<rparr>"
    by (rule Cons.IH)
  show ?case
    using a ih by (cases r; cases "getTableStats rest s1") (auto simp: s1)
qed

text \<open>
  Claim C7. The statistics pass cannot fail: \<open>getTableStats\<close> returns one entry for each
  selected table, in order, whatever the store answers. The entry of a table whose count
  query is rejected has the count zero, the entry of every other table has the number of
  rows of that table, and the pass sends one count query for each table and nothing else.
\<close>

theorem getTableStats_tolerant:
  "map name (fst (getTableStats ts s)) = ts \<and>
   (\<forall>i < length ts. rowCount (fst (getTableStats ts s) ! i) =
      (if faulty s (length (issued s) + i) then 0 else rowsOf s (ts ! i))) \<and>
   issuedSince s (snd (getTableStats ts s)) = map CountRows ts \<and>
   tbls (snd (getTableStats ts s)) = tbls s"
  by (simp add: getTableStats_fst getTableStats_snd issuedSince_def rowsOf_def countOrZero_def
      nth_enumerate_eq comp_def case_prod_unfold map_snd_enumerate)

theorem getTableStats_tolerant_witness:
  "(1::nat) < length [''a'', ''b''] \<and>
   rowCount (fst (getTableStats [''a'', ''b'']
      (start [(''a'', 3), (''b'', 5)] False True (\<lambda>n. n = 0))) ! 1) = 5 \<and>
   rowCount (fst (getTableStats [''a'', ''b'']
      (start [(''a'', 3), (''b'', 5)] False True (\<lambda>n. n = 0))) ! 0) = 0"
  using getTableStats_tolerant
    [of "[''a'', ''b'']" "start [(''a'', 3), (''b'', 5)] False True (\<lambda>n. n = 0)"]
  by (simp add: start_def rowsOf_def All_less_Suc2 numeral_2_eq_2)

subsection \<open>The menu\<close>

text \<open>
  Claim C10. \<open>promptChoice\<close> returns \<open>-1\<close> or an index between \<open>0\<close> and \<open>n - 1\<close>, for
  \<open>n\<close> choices. It returns \<open>i\<close> exactly when the answer (with \<^verbatim>\<open>'0'\<close> for a missing or
  empty answer) parses to \<open>i + 1\<close> and \<open>1 \<le> i + 1 \<le> n\<close>; it returns \<open>-1\<close> for every other
  answer: an empty one, one that \<^verbatim>\<open>parseInt\<close> cannot read, one out of range.
\<close>

theorem promptChoice_result:
  "(promptChoice response choices = - 1 \<or>
      (0 \<le> promptChoice response choices \<and>
       promptChoice response choices \<le> int (length choices) - 1)) \<and>
   (\<forall>i\<ge>0. promptChoice response choices = i \<longleftrightarrow>
      parseInt (orDefault response ''0'') = Some (i + 1) \<and>
      1 \<le> i + 1 \<and> i + 1 \<le> int (length choices)) \<and>
   (promptChoice response choices = - 1 \<longleftrightarrow>
      \<not> (\<exists>k. parseInt (orDefault response ''0'') = Some k \<and> 1 \<le> k \<and> k \<le> int (length choices))) \<and>
   (response = None \<or> response = Some [] \<longrightarrow> promptChoice response choices = - 1) \<and>
   (parseInt (orDefault response ''0'') = None \<longrightarrow> promptChoice response choices = - 1)"
proof -
  have zero: "parseInt ''0'' = Some 0"
    by (simp add: parseInt_def isWhiteSpace_def isDigit_def digitsValue_def digitValue_def)
  show ?thesis
    by (auto simp: promptChoice_def orDefault_def zero split: option.splits)
qed

theorem promptChoice_result_witness:
  "(0::int) \<le> 1 \<and> promptChoice (Some ''2'') [''all'', ''some'', ''cancel''] = 1 \<and>
   parseInt (orDefault (Some ''2'') ''0'') = Some 2"
proof -
  have two: "parseInt (orDefault (Some ''2'') ''0'') = Some (1 + 1)"
    by (simp add: orDefault_def parseInt_def isWhiteSpace_def isDigit_def digitsValue_def
        digitValue_def)
  show ?thesis
    using promptChoice_result [of "Some ''2''" "[''all'', ''some'', ''cancel'']"] two
    by simp
qed

text \<open>
  Some answers to a menu of three choices: \<^verbatim>\<open>parseInt\<close> skips leading white space and
  ignores what follows the digits.
\<close>

lemma promptChoice_examples:
  "promptChoice (Some '' 3x'') [''all'', ''some'', ''cancel''] = 2 \<and>
   promptChoice (Some ''abc'') [''all'', ''some'', ''cancel''] = - 1 \<and>
   promptChoice (Some ''4'') [''all'', ''some'', ''cancel''] = - 1 \<and>
   promptChoice (Some ''-1'') [''all'', ''some'', ''cancel''] = - 1 \<and>
   promptChoice None [''all'', ''some'', ''cancel''] = - 1"
  by (simp add: promptChoice_def orDefault_def parseInt_def isWhiteSpace_def isDigit_def
      digitsValue_def digitValue_def)

subsection \<open>A second signal\<close>

text \<open>
  Claim C9. When \<open>isCleaningUp\<close> is set, that is while an earlier call of the handler is
  under way, \<open>gracefulExit\<close> prints its notice and exits with status 1: it sends no
  statement and leaves the store as it is, whatever a cleanup in flight would still do.
  The first call is what sets the flag, before any wait, so that a signal that arrives
  while the first call waits or restores is such a second signal.
\<close>

theorem gracefulExit_second_signal:
  "(isCleaningUp s \<longrightarrow>
      gracefulExit signal inFlight s = (Exits 1, say ForceClosing s) \<and>
      issuedSince s (snd (gracefulExit signal inFlight s)) = [] \<and>
      tbls (snd (gracefulExit signal inFlight s)) = tbls s \<and>
      foreignKeys (snd (gracefulExit signal inFlight s)) = foreignKeys s) \<and>
   (\<not> isCleaningUp s \<longrightarrow> isCleaningUp (snd (gracefulExit signal (\<lambda>x. x) s))) \<and>
   (\<not> isCleaningUp s \<and> (\<forall>x. isCleaningUp (inFlight x) = isCleaningUp x) \<longrightarrow>
      isCleaningUp (snd (gracefulExit signal inFlight s))) \<and>
   isCleaningUp (gracefulExitEnter first s) \<and>
   gracefulExit signal inFlight (gracefulExitEnter first s) =
     (Exits 1, say ForceClosing (gracefulExitEnter first s))"
proof -
  have rp: "run (PragmaForeignKeys True) x =
     (if faulty x (length (issued x))
      then (Inl (Fault (PragmaForeignKeys True)), x\<lparr>issued := issued x @ [PragmaForeignKeys True]\<rparr>)
      else (Inr (), x\<lparr>issued := issued x @ [PragmaForeignKeys True], foreignKeys := True\<rparr>))"
    for x
    by (simp add: run_def issue_def)
  have entered: "isCleaningUp (gracefulExitEnter first s)" for first s
    by (simp add: gracefulExitEnter_def say_def)
  have again: "isCleaningUp x \<Longrightarrow>
      gracefulExit signal inFlight x = (Exits 1, say ForceClosing x) \<and>
      issuedSince x (snd (gracefulExit signal inFlight x)) = [] \<and>
      tbls (snd (gracefulExit signal inFlight x)) = tbls x \<and>
      foreignKeys (snd (gracefulExit signal inFlight x)) = foreignKeys x" for x
    by (simp add: gracefulExit_def issuedSince_def say_def)
  have first: "isCleaningUp (snd (gracefulExit signal f s))"
    if "\<not> isCleaningUp s" and f: "\<And>x. isCleaningUp (f x) = isCleaningUp x" for f
  proof -
    let ?w = "if cleanupPromise s then f (gracefulExitEnter signal s)
              else gracefulExitEnter signal s"
    have w: "isCleaningUp ?w" using entered [of signal s] f by simp
    have "snd (gracefulExit signal f s) =
            (if faulty ?w (length (issued ?w))
             then say Goodbye (say CouldNotRestore
                    (?w\<lparr>issued := issued ?w @ [PragmaForeignKeys True]\<rparr>))
             else say Goodbye (say Restored
                    (?w\<lparr>issued := issued ?w @ [PragmaForeignKeys True], foreignKeys := True\<rparr>)))"
      using that(1) unfolding gracefulExit_def rp by simp
    then show ?thesis using w by (simp add: say_def)
  qed
  have c1: "isCleaningUp s \<longrightarrow>
      gracefulExit signal inFlight s = (Exits 1, say ForceClosing s) \<and>
      issuedSince s (snd (gracefulExit signal inFlight s)) = [] \<and>
      tbls (snd (gracefulExit signal inFlight s)) = tbls s \<and>
      foreignKeys (snd (gracefulExit signal inFlight s)) = foreignKeys s"
    using again [of s] by blast
  have c2: "\<not> isCleaningUp s \<longrightarrow> isCleaningUp (snd (gracefulExit signal (\<lambda>x. x) s))"
    using first [of "\<lambda>x. x"] by simp
  have c3: "\<not> isCleaningUp s \<and> (\<forall>x. isCleaningUp (inFlight x) = isCleaningUp x) \<longrightarrow>
      isCleaningUp (snd (gracefulExit signal inFlight s))"
    using first [of inFlight] by blast
  have c5: "gracefulExit signal inFlight (gracefulExitEnter first s) =
     (Exits 1, say ForceClosing (gracefulExitEnter first s))"
    using again [OF entered] by blast
  show ?thesis using c1 c2 c3 entered c5 by blast
qed

theorem gracefulExit_second_signal_witness:
  "isCleaningUp (snd (gracefulExit ''SIGINT'' (\<lambda>x. x)
     (start [(''a'', 3)] False False (\<lambda>n. False)))) \<and>
   fst (gracefulExit ''SIGTERM'' (\<lambda>x. x)
     ((start [(''a'', 3)] False False (\<lambda>n. False))\<lparr>isCleaningUp := True\<rparr>)) = Exits 1"
  using gracefulExit_second_signal
      [of "start [(''a'', 3)] False False (\<lambda>n. False)" "''SIGINT''" "\<lambda>x. x"]
    gracefulExit_second_signal
      [of "(start [(''a'', 3)] False False (\<lambda>n. False))\<lparr>isCleaningUp := True\<rparr>" "''SIGTERM''"
        "\<lambda>x. x"]
  by (simp add: start_def)

subsection \<open>Selection with an explicit list\<close>

lemma count_list_filter:
  "count_list (filter P xs) x = (if P x then count_list xs x else 0)"
  by (induction xs) auto

text \<open>
  Claim C1, as amended. For a request string that is not empty, the selection of
  \<open>filterTables\<close> holds exactly the names that are both requested and discovered, in the
  order of the request and as often as they are requested (so it is a subsequence of the
  request, not of the discovered list). The names requested and not discovered are
  printed in one warning, in the order of the request, each as often as it is requested;
  there is no warning when every requested name is discovered.
\<close>

theorem filterTables_request_order:
  "r \<noteq> [] \<Longrightarrow>
   set (fst (filterTables allTables (Some r))) = set (requestedNames r) \<inter> set allTables \<and>
   fst (filterTables allTables (Some r)) =
     filter (\<lambda>t. t \<in> set allTables) (requestedNames r) \<and>
   subseq (fst (filterTables allTables (Some r))) (requestedNames r) \<and>
   (\<forall>t. count_list (fst (filterTables allTables (Some r))) t =
      (if t \<in> set allTables then count_list (requestedNames r) t else 0)) \<and>
   snd (filterTables allTables (Some r)) =
     (if set (requestedNames r) \<subseteq> set allTables then []
      else [TablesNotFound (filter (\<lambda>t. t \<notin> set allTables) (requestedNames r))]) \<and>
   (\<forall>t. count_list (filter (\<lambda>t. t \<notin> set allTables) (requestedNames r)) t =
      (if t \<in> set allTables then 0 else count_list (requestedNames r) t))"
  by (auto simp: filterTables_def Let_def count_list_filter filter_empty_conv)

theorem filterTables_request_order_witness:
  "''users, ghost,users'' \<noteq> [] \<and>
   fst (filterTables [''sessions'', ''users''] (Some ''users, ghost,users'')) =
     [''users'', ''users''] \<and>
   snd (filterTables [''sessions'', ''users''] (Some ''users, ghost,users'')) =
     [TablesNotFound [''ghost'']]"
proof -
  have r: "requestedNames ''users, ghost,users'' = [''users'', ''ghost'', ''users'']"
    by (simp add: requestedNames_def trim_def isWhiteSpace_def)
  show ?thesis
    using filterTables_request_order [of "''users, ghost,users''" "[''sessions'', ''users'']"]
    by (simp add: r)
qed

text \<open>
  The claim as stated fails: with the tables \<open>a, b\<close> and the request \<^verbatim>\<open>b,a\<close> the selection
  is \<open>b, a\<close>, which is not in discovery order, and a missing name requested twice is
  reported twice.
\<close>

theorem filterTables_discovery_order_counterexample:
  "fst (filterTables [''a'', ''b''] (Some ''b,a'')) = [''b'', ''a''] \<and>
   \<not> subseq (fst (filterTables [''a'', ''b''] (Some ''b,a''))) [''a'', ''b''] \<and>
   snd (filterTables [''a''] (Some ''x,x'')) = [TablesNotFound [''x'', ''x'']]"
  by (simp add: filterTables_def requestedNames_def trim_def isWhiteSpace_def)

subsection \<open>Row deletion\<close>












subsection \<open>Steps that send queries only\<close>







lemma getAllTables_eq:
  "getAllTables s =
     (if faulty s (length (issued s)) then Inl (Fault SelectTables)
      else Inr (map fst (tbls s)),
      s\<lparr>issued := issued s @ [SelectTables]\<rparr>)"
  by (simp add: getAllTables_def allTableNames_def issue_def)







subsection \<open>The work between the two pragmas\<close>

lemma bodySteps_refl: "bodySteps s s"
  by (simp add: bodySteps_def)

lemma bodySteps_trans: "bodySteps s s' \<Longrightarrow> bodySteps s' s'' \<Longrightarrow> bodySteps s s''"
  unfolding bodySteps_def
  apply (elim conjE exE)
  subgoal for qs qs' ms ms'
    apply (intro conjI)
        apply (rule exI [of _ "qs @ qs'"], rule exI [of _ "ms @ ms'"])
        apply auto
    done
  done

lemma bodySteps_say: "bodyLine m \<Longrightarrow> bodySteps s (say m s)"
  by (simp add: bodySteps_def say_def)

lemma bodySteps_run: "bodyStmt q \<Longrightarrow> run q s = (r, s') \<Longrightarrow> bodySteps s s'"
  by (cases q) (auto simp: run_def issue_def bodySteps_def split: if_splits sum.splits)

lemma bodySteps_allCount: "allCount t s = (r, s') \<Longrightarrow> bodySteps s s'"
  by (auto simp: allCount_def issue_def bodySteps_def split: if_splits option.splits)

lemma bodySteps_allSequenceTable: "allSequenceTable s = (r, s') \<Longrightarrow> bodySteps s s'"
  by (auto simp: allSequenceTable_def issue_def bodySteps_def split: if_splits)

lemma bodySteps_deleteLoop: "deleteLoop ts acc s = (r, s') \<Longrightarrow> bodySteps s s'"
proof (induction ts arbitrary: acc s)
  case Nil
  then show ?case by (simp add: bodySteps_refl)
next
  case (Cons t rest)
  obtain r1 s1 where a: "allCount t s = (r1, s1)" by (cases "allCount t s")
  have a1: "bodySteps s s1" using a by (rule bodySteps_allCount)
  show ?case
  proof (cases r1)
    case (Inl e)
    with Cons.prems a a1 show ?thesis by simp
  next
    case (Inr before)
    obtain r2 s2 where b: "run (DeleteFrom t) s1 = (r2, s2)" by (cases "run (DeleteFrom t) s1")
    have b1: "bodySteps s s2" using a1 bodySteps_run [OF _ b] by (auto intro: bodySteps_trans)
    show ?thesis
    proof (cases r2)
      case (Inl e)
      with Cons.prems a b Inr b1 show ?thesis by simp
    next
      case u: (Inr u)
      have c: "deleteLoop rest (acc + firstCount before)
                 (say (RowsDeleted t (firstCount before)) s2) = (r, s')"
        using Cons.prems a b Inr u by simp
      have "bodySteps s (say (RowsDeleted t (firstCount before)) s2)"
        using b1 bodySteps_say [of "RowsDeleted t (firstCount before)" s2]
        by (auto intro: bodySteps_trans)
      then show ?thesis using Cons.IH [OF c] by (rule bodySteps_trans)
    qed
  qed
qed

lemma bodySteps_dropTables: "dropTables ts s = (r, s') \<Longrightarrow> bodySteps s s'"
proof (induction ts arbitrary: s)
  case Nil
  then show ?case by (simp add: bodySteps_refl)
next
  case (Cons t rest)
  obtain r1 s1 where a: "run (DropTable t) s = (r1, s1)" by (cases "run (DropTable t) s")
  have a1: "bodySteps s s1" using bodySteps_run [OF _ a] by simp
  show ?case
  proof (cases r1)
    case (Inl e)
    with Cons.prems a a1 show ?thesis by simp
  next
    case (Inr u)
    have c: "dropTables rest (say (Dropped t) s1) = (r, s')"
      using Cons.prems a Inr by simp
    have "bodySteps s (say (Dropped t) s1)"
      using a1 bodySteps_say [of "Dropped t" s1] by (auto intro: bodySteps_trans)
    then show ?thesis using Cons.IH [OF c] by (rule bodySteps_trans)
  qed
qed

lemma bodySteps_resetSequences: "resetSequences s = (r, s') \<Longrightarrow> bodySteps s s'"
proof -
  assume p: "resetSequences s = (r, s')"
  obtain r1 s1 where a: "allSequenceTable s = (r1, s1)" by (cases "allSequenceTable s")
  have a1: "bodySteps s s1" using a by (rule bodySteps_allSequenceTable)
  obtain r2 s2 where b: "run DeleteSequence s1 = (r2, s2)" by (cases "run DeleteSequence s1")
  have b1: "bodySteps s s2" using a1 bodySteps_run [OF _ b] by (auto intro: bodySteps_trans)
  have b2: "bodySteps s (say SequencesReset s2)"
    using b1 bodySteps_say [of SequencesReset s2] by (auto intro: bodySteps_trans)
  show ?thesis
    using p a b a1 b1 b2
    by (auto simp: resetSequences_def hasSequenceTable_def split: sum.splits if_splits)
qed

lemma bodySteps_performOperation:
  "performOperation operation ts s = (r, s') \<Longrightarrow> bodySteps s s'"
proof -
  assume p: "performOperation operation ts s = (r, s')"
  show ?thesis
  proof (cases "operation = Drop")
    case True
    obtain r1 s1 where a: "dropTables ts s = (r1, s1)" by (cases "dropTables ts s")
    with p True bodySteps_dropTables [OF a] show ?thesis
      by (auto simp: performOperation_def split: sum.splits)
  next
    case False
    obtain r1 s1 where a: "deleteTables ts s = (r1, s1)" by (cases "deleteTables ts s")
    have a1: "bodySteps s s1" using a bodySteps_deleteLoop by (simp add: deleteTables_def)
    obtain r2 s2 where b: "resetSequences s1 = (r2, s2)" by (cases "resetSequences s1")
    have b1: "bodySteps s s2" using a1 bodySteps_resetSequences [OF b] by (rule bodySteps_trans)
    show ?thesis
      using p False a b a1 b1 by (auto simp: performOperation_def split: sum.splits)
  qed
qed

lemma run_pragma:
  "run (PragmaForeignKeys b) s =
     (if faulty s (length (issued s))
      then (Inl (Fault (PragmaForeignKeys b)), s\<lparr>issued := issued s @ [PragmaForeignKeys b]\<rparr>)
      else (Inr (), s\<lparr>issued := issued s @ [PragmaForeignKeys b], foreignKeys := b\<rparr>))"
  by (simp add: run_def issue_def)

text \<open>The four ways through the \<open>try\<close> block.\<close>

lemma cleanupTry_cases:
  assumes "cleanupTry operation ts s = (r, s1)"
  obtains
    (off_rejected) "faulty s (length (issued s))"
      "r = Inl (Fault (PragmaForeignKeys False))"
      "s1 = s\<lparr>issued := issued s @ [PragmaForeignKeys False]\<rparr>"
  | (body_failed) e where "\<not> faulty s (length (issued s))" "r = Inl e"
      "bodySteps (s\<lparr>issued := issued s @ [PragmaForeignKeys False], foreignKeys := False,
                   foreignKeysDisabled := True\<rparr>) s1"
  | (on_rejected) sb where "\<not> faulty s (length (issued s))"
      "r = Inl (Fault (PragmaForeignKeys True))"
      "bodySteps (s\<lparr>issued := issued s @ [PragmaForeignKeys False], foreignKeys := False,
                   foreignKeysDisabled := True\<rparr>) sb"
      "faulty sb (length (issued sb))"
      "s1 = sb\<lparr>issued := issued sb @ [PragmaForeignKeys True]\<rparr>"
  | (finished) sb n where "\<not> faulty s (length (issued s))" "r = Inr ()"
      "bodySteps (s\<lparr>issued := issued s @ [PragmaForeignKeys False], foreignKeys := False,
                   foreignKeysDisabled := True\<rparr>) sb"
      "\<not> faulty sb (length (issued sb))"
      "s1 = say (Results operation (length ts) n)
              (sb\<lparr>issued := issued sb @ [PragmaForeignKeys True], foreignKeys := True,
                  foreignKeysDisabled := False\<rparr>)"
proof (cases "faulty s (length (issued s))")
  case True
  with assms off_rejected show ?thesis by (simp add: cleanupTry_def run_pragma)
next
  case ok: False
  let ?s1 = "s\<lparr>issued := issued s @ [PragmaForeignKeys False], foreignKeys := False,
                   foreignKeysDisabled := True\<rparr>"
  obtain r2 sb where p: "performOperation operation ts ?s1 = (r2, sb)"
    by (cases "performOperation operation ts ?s1")
  note B = bodySteps_performOperation [OF p]
  show ?thesis
  proof (cases r2)
    case (Inl e)
    with assms ok p have "r = Inl e" "s1 = sb" by (simp_all add: cleanupTry_def run_pragma)
    with ok B body_failed show ?thesis by simp
  next
    case (Inr n)
    show ?thesis
    proof (cases "faulty sb (length (issued sb))")
      case True
      with assms ok p Inr have "r = Inl (Fault (PragmaForeignKeys True))"
        "s1 = sb\<lparr>issued := issued sb @ [PragmaForeignKeys True]\<rparr>"
        by (simp_all add: cleanupTry_def run_pragma)
      with ok B True on_rejected show ?thesis by simp
    next
      case False
      with assms ok p Inr have "r = Inr ()"
        "s1 = say (Results operation (length ts) n)
              (sb\<lparr>issued := issued sb @ [PragmaForeignKeys True], foreignKeys := True,
                  foreignKeysDisabled := False\<rparr>)"
        by (simp_all add: cleanupTry_def run_pragma displayResults_def say_def)
      with ok B False finished show ?thesis by simp
    qed
  qed
qed

subsection \<open>The destructive phase\<close>

lemma count_body_pragma:
  "\<forall>q\<in>set qs. bodyStmt q \<Longrightarrow> count_list qs (PragmaForeignKeys b) = 0"
  by (induction qs) auto

lemma count_body_error:
  "\<forall>m\<in>set ms. bodyLine m \<Longrightarrow> count_list ms (ErrorDuringCleanup e) = 0"
  by (induction ms) auto

text \<open>The four ways through the destructive phase, with all that they send and print.\<close>

lemma destructivePhase_cases:
  assumes "destructivePhase operation ts s = (c, s')"
  obtains
    (off_rejected) "faulty s (length (issued s))"
      "c = Throws (Fault (PragmaForeignKeys False))"
      "issued s' = issued s @ [PragmaForeignKeys False]"
      "console s' = console s @ [SectionDestructive operation,
         ErrorDuringCleanup (Fault (PragmaForeignKeys False))]"
      "\<not> foreignKeysDisabled s'" "foreignKeys s' = foreignKeys s" "tbls s' = tbls s"
      "faulty s' = faulty s" "isCleaningUp s' = isCleaningUp s"
  | (body_failed) e qs ms where "\<not> faulty s (length (issued s))" "c = Throws e"
      "\<forall>q\<in>set qs. bodyStmt q" "\<forall>m\<in>set ms. bodyLine m"
      "issued s' = issued s @ PragmaForeignKeys False # qs @ [PragmaForeignKeys True]"
      "console s' = console s @ SectionDestructive operation # ms @
         [ErrorDuringCleanup e,
          if faulty s (length (issued s) + Suc (length qs))
          then FailedReenable (Fault (PragmaForeignKeys True)) else Restored]"
      "foreignKeysDisabled s'"
      "\<not> faulty s (length (issued s) + Suc (length qs)) \<longrightarrow> foreignKeys s'"
      "faulty s' = faulty s" "isCleaningUp s' = isCleaningUp s"
  | (on_rejected) qs ms where "\<not> faulty s (length (issued s))"
      "c = Throws (Fault (PragmaForeignKeys True))"
      "\<forall>q\<in>set qs. bodyStmt q" "\<forall>m\<in>set ms. bodyLine m"
      "faulty s (length (issued s) + Suc (length qs))"
      "issued s' = issued s @ PragmaForeignKeys False # qs @
         [PragmaForeignKeys True, PragmaForeignKeys True]"
      "console s' = console s @ SectionDestructive operation # ms @
         [ErrorDuringCleanup (Fault (PragmaForeignKeys True)),
          if faulty s (length (issued s) + Suc (Suc (length qs)))
          then FailedReenable (Fault (PragmaForeignKeys True)) else Restored]"
      "foreignKeysDisabled s'"
      "\<not> faulty s (length (issued s) + Suc (Suc (length qs))) \<longrightarrow> foreignKeys s'"
      "faulty s' = faulty s" "isCleaningUp s' = isCleaningUp s"
  | (finished) qs ms n where "\<not> faulty s (length (issued s))" "c = Returns"
      "\<forall>q\<in>set qs. bodyStmt q" "\<forall>m\<in>set ms. bodyLine m"
      "\<not> faulty s (length (issued s) + Suc (length qs))"
      "issued s' = issued s @ PragmaForeignKeys False # qs @ [PragmaForeignKeys True]"
      "console s' = console s @ SectionDestructive operation # ms @
         [Results operation (length ts) n]"
      "\<not> foreignKeysDisabled s'" "foreignKeys s'"
      "faulty s' = faulty s" "isCleaningUp s' = isCleaningUp s"
proof -
  let ?s0 = "say (SectionDestructive operation) (s\<lparr>foreignKeysDisabled := False\<rparr>)"
  obtain r s1 where t: "cleanupTry operation ts ?s0 = (r, s1)"
    by (cases "cleanupTry operation ts ?s0")
  have s0: "issued ?s0 = issued s" "faulty ?s0 = faulty s"
    "console ?s0 = console s @ [SectionDestructive operation]"
    "isCleaningUp ?s0 = isCleaningUp s"
    by (simp_all add: say_def)
  from t show ?thesis
  proof (cases rule: cleanupTry_cases)
    case off_rejected
    with assms t s0 have "c = Throws (Fault (PragmaForeignKeys False))"
      "issued s' = issued s @ [PragmaForeignKeys False]"
      "console s' = console s @ [SectionDestructive operation,
         ErrorDuringCleanup (Fault (PragmaForeignKeys False))]"
      "\<not> foreignKeysDisabled s'" "foreignKeys s' = foreignKeys s" "tbls s' = tbls s"
      "faulty s' = faulty s" "isCleaningUp s' = isCleaningUp s"
      by (auto simp: destructivePhase_def cleanupCatch_def say_def)
    with off_rejected s0 show ?thesis using that(1) by simp
  next
    case (body_failed e)
    from body_failed(3) obtain qs ms where
      b: "issued s1 = issued s @ PragmaForeignKeys False # qs"
        "console s1 = console s @ SectionDestructive operation # ms"
        "\<forall>q\<in>set qs. bodyStmt q" "\<forall>m\<in>set ms. bodyLine m"
        "faulty s1 = faulty s" "isCleaningUp s1 = isCleaningUp s" "foreignKeysDisabled s1"
      by (auto simp: bodySteps_def say_def)
    have c: "c = Throws e" and s': "s' = snd (cleanupCatch e s1)"
      using assms t body_failed(2) by (simp_all add: destructivePhase_def cleanupCatch_def Let_def)
    have "issued s' = issued s @ PragmaForeignKeys False # qs @ [PragmaForeignKeys True]"
      "console s' = console s @ SectionDestructive operation # ms @
         [ErrorDuringCleanup e,
          if faulty s (length (issued s) + Suc (length qs))
          then FailedReenable (Fault (PragmaForeignKeys True)) else Restored]"
      "foreignKeysDisabled s'"
      "\<not> faulty s (length (issued s) + Suc (length qs)) \<longrightarrow> foreignKeys s'"
      "faulty s' = faulty s" "isCleaningUp s' = isCleaningUp s"
      using b s' by (simp_all add: cleanupCatch_def Let_def say_def run_pragma)
    with body_failed(1) s0 c b(3,4) show ?thesis using that(2) by simp
  next
    case (on_rejected sb)
    from on_rejected(3) obtain qs ms where
      b: "issued sb = issued s @ PragmaForeignKeys False # qs"
        "console sb = console s @ SectionDestructive operation # ms"
        "\<forall>q\<in>set qs. bodyStmt q" "\<forall>m\<in>set ms. bodyLine m"
        "faulty sb = faulty s" "isCleaningUp sb = isCleaningUp s" "foreignKeysDisabled sb"
      by (auto simp: bodySteps_def say_def)
    have c: "c = Throws (Fault (PragmaForeignKeys True))"
      and s': "s' = snd (cleanupCatch (Fault (PragmaForeignKeys True)) s1)"
      using assms t on_rejected(2)
      by (simp_all add: destructivePhase_def cleanupCatch_def Let_def)
    have f: "faulty s (length (issued s) + Suc (length qs))"
      using on_rejected(4) b by simp
    have "issued s' = issued s @ PragmaForeignKeys False # qs @
         [PragmaForeignKeys True, PragmaForeignKeys True]"
      "console s' = console s @ SectionDestructive operation # ms @
         [ErrorDuringCleanup (Fault (PragmaForeignKeys True)),
          if faulty s (length (issued s) + Suc (Suc (length qs)))
          then FailedReenable (Fault (PragmaForeignKeys True)) else Restored]"
      "foreignKeysDisabled s'"
      "\<not> faulty s (length (issued s) + Suc (Suc (length qs))) \<longrightarrow> foreignKeys s'"
      "faulty s' = faulty s" "isCleaningUp s' = isCleaningUp s"
      using b s' on_rejected(5) by (simp_all add: cleanupCatch_def Let_def say_def run_pragma)
    with on_rejected(1) s0 c f b(3,4) show ?thesis using that(3) by simp
  next
    case (finished sb n)
    from finished(3) obtain qs ms where
      b: "issued sb = issued s @ PragmaForeignKeys False # qs"
        "console sb = console s @ SectionDestructive operation # ms"
        "\<forall>q\<in>set qs. bodyStmt q" "\<forall>m\<in>set ms. bodyLine m"
        "faulty sb = faulty s" "isCleaningUp sb = isCleaningUp s"
      by (auto simp: bodySteps_def say_def)
    have c: "c = Returns" and s': "s' = s1"
      using assms t finished(2) by (simp_all add: destructivePhase_def)
    have f: "\<not> faulty s (length (issued s) + Suc (length qs))"
      using finished(4) b by simp
    have "issued s' = issued s @ PragmaForeignKeys False # qs @ [PragmaForeignKeys True]"
      "console s' = console s @ SectionDestructive operation # ms @
         [Results operation (length ts) n]"
      "\<not> foreignKeysDisabled s'" "foreignKeys s'"
      "faulty s' = faulty s" "isCleaningUp s' = isCleaningUp s"
      using b s' finished(5) by (simp_all add: say_def)
    with finished(1) s0 c f b(3,4) show ?thesis using that(4) by simp
  qed
qed

lemma issuedSince_append: "issued s' = issued s @ qs \<Longrightarrow> issuedSince s s' = qs"
  by (simp add: issuedSince_def)

lemma printedSince_append: "console s' = console s @ ms \<Longrightarrow> printedSince s s' = ms"
  by (simp add: printedSince_def)


lemmas run_defs = destructivePhase_def cleanupTry_def cleanupCatch_def performOperation_def
  deleteTables_def resetSequences_def hasSequenceTable_def allSequenceTable_def allCount_def
  run_def issue_def say_def displayResults_def firstCount_def scenario_def start_def
  issuedSince_def printedSince_def

lemma destructivePhase_pragmas:
  assumes "destructivePhase operation ts s = (c, s')"
  shows "count_list (issuedSince s s') (PragmaForeignKeys False) = 1 \<and>
         hd (issuedSince s s') = PragmaForeignKeys False \<and>
         (c = Returns \<longrightarrow>
            count_list (issuedSince s s') (PragmaForeignKeys True) = 1 \<and>
            last (issuedSince s s') = PragmaForeignKeys True \<and>
            \<not> foreignKeysDisabled s' \<and> foreignKeys s') \<and>
         (c \<noteq> Returns \<longrightarrow>
            (\<exists>e. c = Throws e) \<and>
            (foreignKeysDisabled s' \<longleftrightarrow> \<not> faulty s (length (issued s))) \<and>
            (foreignKeysDisabled s' \<longrightarrow>
               last (issuedSince s s') = PragmaForeignKeys True \<and>
               (count_list (issuedSince s s') (PragmaForeignKeys True) = 1 \<or>
                count_list (issuedSince s s') (PragmaForeignKeys True) = 2) \<and>
               (\<not> faulty s (length (issued s') - 1) \<longrightarrow> foreignKeys s')) \<and>
            (\<not> foreignKeysDisabled s' \<longrightarrow>
               count_list (issuedSince s s') (PragmaForeignKeys True) = 0 \<and>
               foreignKeys s' = foreignKeys s))"
  using assms
proof (cases rule: destructivePhase_cases)
  case off_rejected
  then show ?thesis by (simp add: issuedSince_append)
next
  case (body_failed e qs ms)
  from body_failed(5) have
    "issuedSince s s' = PragmaForeignKeys False # qs @ [PragmaForeignKeys True]"
    by (rule issuedSince_append)
  with body_failed show ?thesis by (simp add: count_body_pragma)
next
  case (on_rejected qs ms)
  from on_rejected(6) have
    "issuedSince s s' =
       PragmaForeignKeys False # qs @ [PragmaForeignKeys True, PragmaForeignKeys True]"
    by (rule issuedSince_append)
  with on_rejected show ?thesis by (simp add: count_body_pragma)
next
  case (finished qs ms n)
  from finished(6) have
    "issuedSince s s' = PragmaForeignKeys False # qs @ [PragmaForeignKeys True]"
    by (rule issuedSince_append)
  with finished show ?thesis by (simp add: count_body_pragma)
qed

text \<open>
  Two enables are sent exactly when the last two statements of the phase are enables: the
  enable of the normal path, rejected, and the enable of the \<^verbatim>\<open>catch\<close> block.
\<close>

lemma destructivePhase_two_enables:
  assumes "destructivePhase operation ts s = (c, s')"
  shows "(c \<noteq> Returns \<and> foreignKeysDisabled s' \<longrightarrow>
            (count_list (issuedSince s s') (PragmaForeignKeys True) = 2 \<longleftrightarrow>
               (\<exists>qs. issuedSince s s' = qs @ [PragmaForeignKeys True, PragmaForeignKeys True])) \<and>
            (count_list (issuedSince s s') (PragmaForeignKeys True) = 2 \<longrightarrow>
               c = Throws (Fault (PragmaForeignKeys True))))"
  using assms
proof (cases rule: destructivePhase_cases)
  case off_rejected
  then show ?thesis by simp
next
  case (body_failed e qs ms)
  from body_failed(5) have i:
    "issuedSince s s' = PragmaForeignKeys False # qs @ [PragmaForeignKeys True]"
    by (rule issuedSince_append)
  have one: "count_list (issuedSince s s') (PragmaForeignKeys True) = 1"
    using body_failed(3) by (simp add: i count_body_pragma)
  have "\<not> (\<exists>qs'. issuedSince s s' = qs' @ [PragmaForeignKeys True, PragmaForeignKeys True])"
  proof
    assume "\<exists>qs'. issuedSince s s' = qs' @ [PragmaForeignKeys True, PragmaForeignKeys True]"
    then obtain qs' where
      "(PragmaForeignKeys False # qs) @ [PragmaForeignKeys True] =
       (qs' @ [PragmaForeignKeys True]) @ [PragmaForeignKeys True]"
      using i by auto
    then have "PragmaForeignKeys False # qs = qs' @ [PragmaForeignKeys True]"
      by (simp only: append1_eq_conv)
    then have "PragmaForeignKeys True \<in> set (PragmaForeignKeys False # qs)"
      by simp
    with body_failed(3) show False by auto
  qed
  with one show ?thesis by simp
next
  case (on_rejected qs ms)
  from on_rejected(6) have i:
    "issuedSince s s' =
       (PragmaForeignKeys False # qs) @ [PragmaForeignKeys True, PragmaForeignKeys True]"
    by (simp add: issuedSince_append)
  have two: "count_list (issuedSince s s') (PragmaForeignKeys True) = 2"
    using on_rejected(3) by (simp add: i count_body_pragma)
  from i have "\<exists>qs'. issuedSince s s' =
                 qs' @ [PragmaForeignKeys True, PragmaForeignKeys True]"
    by blast
  with two on_rejected(2) show ?thesis by simp
next
  case (finished qs ms n)
  then show ?thesis by simp
qed

text \<open>
  Claim C3, as amended. Every run of the destructive phase sends exactly one disable, as
  its first statement. A run that succeeds sends exactly one enable, as its last
  statement: as many enables as disables, not one more; the flag is then false and
  enforcement is on. In a run that fails the flag is set exactly when the disable was
  accepted: then the \<^verbatim>\<open>catch\<close> block sends an enable as the last statement (one or two
  enables in all; two exactly when the last two statements are enables, and then the
  rejected statement was the enable of the normal path) and
  enforcement is on when that last enable is accepted; when the disable itself was
  rejected, the phase sends no enable and leaves enforcement as it was.
\<close>

theorem destructivePhase_enforcement:
  assumes "destructivePhase operation ts s = (c, s')"
  shows "count_list (issuedSince s s') (PragmaForeignKeys False) = 1 \<and>
         hd (issuedSince s s') = PragmaForeignKeys False \<and>
         (c = Returns \<longrightarrow>
            count_list (issuedSince s s') (PragmaForeignKeys True) = 1 \<and>
            last (issuedSince s s') = PragmaForeignKeys True \<and>
            \<not> foreignKeysDisabled s' \<and> foreignKeys s') \<and>
         (c \<noteq> Returns \<longrightarrow>
            (\<exists>e. c = Throws e) \<and>
            (foreignKeysDisabled s' \<longleftrightarrow> \<not> faulty s (length (issued s))) \<and>
            (foreignKeysDisabled s' \<longrightarrow>
               last (issuedSince s s') = PragmaForeignKeys True \<and>
               (count_list (issuedSince s s') (PragmaForeignKeys True) = 1 \<or>
                count_list (issuedSince s s') (PragmaForeignKeys True) = 2) \<and>
               (\<not> faulty s (length (issued s') - 1) \<longrightarrow> foreignKeys s')) \<and>
            (\<not> foreignKeysDisabled s' \<longrightarrow>
               count_list (issuedSince s s') (PragmaForeignKeys True) = 0 \<and>
               foreignKeys s' = foreignKeys s)) \<and>
         (c \<noteq> Returns \<and> foreignKeysDisabled s' \<longrightarrow>
            (count_list (issuedSince s s') (PragmaForeignKeys True) = 2 \<longleftrightarrow>
               (\<exists>qs. issuedSince s s' = qs @ [PragmaForeignKeys True, PragmaForeignKeys True])) \<and>
            (count_list (issuedSince s s') (PragmaForeignKeys True) = 2 \<longrightarrow>
               c = Throws (Fault (PragmaForeignKeys True))))"
proof -
  note A = destructivePhase_pragmas [OF assms]
  note B = destructivePhase_two_enables [OF assms]
  from A have a1: "count_list (issuedSince s s') (PragmaForeignKeys False) = 1"
    by (rule conjunct1)
  from A have a2: "hd (issuedSince s s') = PragmaForeignKeys False"
    by (rule conjunct2 [THEN conjunct1])
  note a3 = A [THEN conjunct2, THEN conjunct2, THEN conjunct1]
  note a4 = A [THEN conjunct2, THEN conjunct2, THEN conjunct2]
  show ?thesis
    by (rule conjI [OF a1 conjI [OF a2 conjI [OF a3 conjI [OF a4 B]]]])
qed

theorem destructivePhase_enforcement_witness:
  "fst (destructivePhase Delete [''users''] (scenario (\<lambda>n. n = 1))) \<noteq> Returns \<and>
   foreignKeysDisabled (snd (destructivePhase Delete [''users''] (scenario (\<lambda>n. n = 1)))) \<and>
   count_list (issuedSince (scenario (\<lambda>n. n = 1))
     (snd (destructivePhase Delete [''users''] (scenario (\<lambda>n. n = 1)))))
     (PragmaForeignKeys False) = 1"
proof -
  have c: "fst (destructivePhase Delete [''users''] (scenario (\<lambda>n. n = 1))) \<noteq> Returns"
    by (simp add: run_defs)
  have f: "\<not> faulty (scenario (\<lambda>n. n = 1)) (length (issued (scenario (\<lambda>n. n = 1))))"
    by (simp add: scenario_def start_def)
  show ?thesis
    using destructivePhase_enforcement [where operation = Delete and ts = "[''users'']"
        and s = "scenario (\<lambda>n. n = 1)", OF surjective_pairing] c f
    by simp
qed

text \<open>
  The claim as stated fails on a run that succeeds: deleting the rows of \<open>users\<close> sends one
  disable and one enable, so the enables are not one more than the disables.
\<close>

theorem destructivePhase_equal_counts_counterexample:
  "fst (destructivePhase Delete [''users''] (scenario (\<lambda>n. False))) = Returns \<and>
   issuedSince (scenario (\<lambda>n. False))
     (snd (destructivePhase Delete [''users''] (scenario (\<lambda>n. False)))) =
     [PragmaForeignKeys False, CountRows ''users'', DeleteFrom ''users'',
      SelectSequenceTable, DeleteSequence, PragmaForeignKeys True] \<and>
   count_list (issuedSince (scenario (\<lambda>n. False))
     (snd (destructivePhase Delete [''users''] (scenario (\<lambda>n. False)))))
     (PragmaForeignKeys True) \<noteq>
   count_list (issuedSince (scenario (\<lambda>n. False))
     (snd (destructivePhase Delete [''users''] (scenario (\<lambda>n. False)))))
     (PragmaForeignKeys False) + 1"
  by (simp add: run_defs)

text \<open>The state in which the \<^verbatim>\<open>catch\<close> block starts.\<close>

lemma cleanupTry_error_state:
  assumes "cleanupTry operation ts s0 = (Inl e, s1)" and "\<not> foreignKeysDisabled s0"
  shows "faulty s1 = faulty s0 \<and>
         (foreignKeysDisabled s1 \<longleftrightarrow> \<not> faulty s0 (length (issued s0))) \<and>
         (\<exists>qs ms. issued s1 = issued s0 @ qs \<and> console s1 = console s0 @ ms \<and>
            (\<forall>m\<in>set ms. bodyLine m))"
  using assms(1)
proof (cases rule: cleanupTry_cases)
  case off_rejected
  with assms(2) show ?thesis by simp
next
  case (body_failed e')
  then show ?thesis by (auto simp: bodySteps_def)
next
  case (on_rejected sb)
  then show ?thesis by (auto simp: bodySteps_def)
next
  case (finished sb n)
  then show ?thesis by simp
qed

lemma entryPoint_handler:
  assumes "cleanup vals user (s0\<lparr>cleanupPromise := True\<rparr>) = (Throws e, s2)"
  shows "snd (entryPoint vals user s0) =
           snd (gracefulExit ''error'' (\<lambda>x. x) (say (Unexpected e) s2)) \<and>
         (\<not> isCleaningUp s2 \<longrightarrow>
            printedSince s2 (snd (entryPoint vals user s0)) =
              [Unexpected e, Received ''error'',
               if faulty s2 (length (issued s2)) then CouldNotRestore else Restored,
               Goodbye] \<and>
            issuedSince s2 (snd (entryPoint vals user s0)) = [PragmaForeignKeys True])"
proof -
  have a: "snd (entryPoint vals user s0) =
           snd (gracefulExit ''error'' (\<lambda>x. x) (say (Unexpected e) s2))"
    using assms
    by (cases "gracefulExit ''error'' (\<lambda>x. x) (say (Unexpected e) s2)";
        cases "fst (gracefulExit ''error'' (\<lambda>x. x) (say (Unexpected e) s2))")
       (simp_all add: entryPoint_def)
  have b: "\<not> isCleaningUp s2 \<Longrightarrow>
      console (snd (gracefulExit ''error'' (\<lambda>x. x) (say (Unexpected e) s2))) =
        console s2 @ [Unexpected e, Received ''error'',
               if faulty s2 (length (issued s2)) then CouldNotRestore else Restored,
               Goodbye] \<and>
      issued (snd (gracefulExit ''error'' (\<lambda>x. x) (say (Unexpected e) s2))) =
        issued s2 @ [PragmaForeignKeys True]"
    by (simp add: gracefulExit_def gracefulExitEnter_def run_pragma say_def)
  show ?thesis
    using a b by (simp add: printedSince_def issuedSince_def)
qed

text \<open>
  Claim C2, as amended. When a statement of the \<^verbatim>\<open>try\<close> block raises an error, the
  \<^verbatim>\<open>catch\<close> block of \<open>cleanup\<close> receives it and prints its line, once. When the disable
  had been accepted (the flag is set) the block then sends exactly one enable and prints
  whether that enable was accepted or rejected; when the rejected statement was the
  disable itself it sends nothing. \<open>cleanup\<close> then throws the same error. The handler
  of the entry point prints that error and calls \<open>gracefulExit\<close>, which, when no signal
  is being handled, prints its notice, sends one enable of its own and says goodbye.
\<close>

theorem destructivePhase_error:
  assumes "cleanupTry operation ts
             (say (SectionDestructive operation) (s\<lparr>foreignKeysDisabled := False\<rparr>)) =
           (Inl e, s1)"
  shows "fst (destructivePhase operation ts s) = Throws e \<and>
         printedSince s1 (snd (destructivePhase operation ts s)) =
           ErrorDuringCleanup e #
           (if foreignKeysDisabled s1
            then [if faulty s1 (length (issued s1))
                  then FailedReenable (Fault (PragmaForeignKeys True)) else Restored]
            else []) \<and>
         issuedSince s1 (snd (destructivePhase operation ts s)) =
           (if foreignKeysDisabled s1 then [PragmaForeignKeys True] else []) \<and>
         (foreignKeysDisabled s1 \<longleftrightarrow> \<not> faulty s (length (issued s))) \<and>
         (foreignKeysDisabled s1 \<and> \<not> faulty s1 (length (issued s1)) \<longrightarrow>
            foreignKeys (snd (destructivePhase operation ts s))) \<and>
         (\<forall>e'. count_list (printedSince s (snd (destructivePhase operation ts s)))
                 (ErrorDuringCleanup e') = (if e' = e then 1 else 0)) \<and>
         (\<forall>vals user s0 s2.
            cleanup vals user (s0\<lparr>cleanupPromise := True\<rparr>) = (Throws e, s2) \<longrightarrow>
            snd (entryPoint vals user s0) =
              snd (gracefulExit ''error'' (\<lambda>x. x) (say (Unexpected e) s2)) \<and>
            (\<not> isCleaningUp s2 \<longrightarrow>
               printedSince s2 (snd (entryPoint vals user s0)) =
                 [Unexpected e, Received ''error'',
                  if faulty s2 (length (issued s2)) then CouldNotRestore else Restored,
                  Goodbye] \<and>
               issuedSince s2 (snd (entryPoint vals user s0)) = [PragmaForeignKeys True]))"
proof -
  let ?s0 = "say (SectionDestructive operation) (s\<lparr>foreignKeysDisabled := False\<rparr>)"
  let ?r = "destructivePhase operation ts s"
  have nf: "\<not> foreignKeysDisabled ?s0" by (simp add: say_def)
  note E = cleanupTry_error_state [OF assms nf]
  from E obtain qs ms where
    s1: "issued s1 = issued s @ qs" "console s1 = console s @ SectionDestructive operation # ms"
      "\<forall>m\<in>set ms. bodyLine m"
    by (auto simp: say_def)
  have flag: "foreignKeysDisabled s1 \<longleftrightarrow> \<not> faulty s (length (issued s))"
    using E by (simp add: say_def)
  have d: "?r = cleanupCatch e s1"
    using assms by (simp add: destructivePhase_def)
  have thrown: "fst ?r = Throws e"
    unfolding d by (simp add: cleanupCatch_def Let_def)
  have con: "console (snd ?r) = console s1 @
           ErrorDuringCleanup e #
           (if foreignKeysDisabled s1
            then [if faulty s1 (length (issued s1))
                  then FailedReenable (Fault (PragmaForeignKeys True)) else Restored]
            else [])"
    unfolding d by (simp add: cleanupCatch_def Let_def run_pragma say_def)
  have iss: "issued (snd ?r) = issued s1 @
           (if foreignKeysDisabled s1 then [PragmaForeignKeys True] else [])"
    unfolding d by (simp add: cleanupCatch_def Let_def run_pragma say_def)
  have fk: "foreignKeysDisabled s1 \<and> \<not> faulty s1 (length (issued s1)) \<longrightarrow>
            foreignKeys (snd ?r)"
    unfolding d by (simp add: cleanupCatch_def Let_def run_pragma say_def)
  have whole: "printedSince s (snd ?r) = SectionDestructive operation # ms @
           ErrorDuringCleanup e #
           (if foreignKeysDisabled s1
            then [if faulty s1 (length (issued s1))
                  then FailedReenable (Fault (PragmaForeignKeys True)) else Restored]
            else [])"
    using con s1(2) by (simp add: printedSince_def)
  have once: "\<forall>e'. count_list (printedSince s (snd ?r)) (ErrorDuringCleanup e') =
                (if e' = e then 1 else 0)"
    unfolding whole using s1(3) by (simp add: count_body_error)
  have p1: "printedSince s1 (snd ?r) =
           ErrorDuringCleanup e #
           (if foreignKeysDisabled s1
            then [if faulty s1 (length (issued s1))
                  then FailedReenable (Fault (PragmaForeignKeys True)) else Restored]
            else [])"
    using con by (rule printedSince_append)
  have i1: "issuedSince s1 (snd ?r) =
           (if foreignKeysDisabled s1 then [PragmaForeignKeys True] else [])"
    using iss by (rule issuedSince_append)
  show ?thesis
    using thrown p1 i1 flag fk once entryPoint_handler by blast
qed

theorem destructivePhase_error_witness:
  "fst (destructivePhase Delete [''users''] (scenario (\<lambda>n. n = 1))) =
     Throws (Fault (CountRows ''users'')) \<and>
   printedSince (scenario (\<lambda>n. n = 1))
     (snd (destructivePhase Delete [''users''] (scenario (\<lambda>n. n = 1)))) =
     [SectionDestructive Delete, ErrorDuringCleanup (Fault (CountRows ''users'')), Restored] \<and>
   issuedSince (scenario (\<lambda>n. n = 1))
     (snd (destructivePhase Delete [''users''] (scenario (\<lambda>n. n = 1)))) =
     [PragmaForeignKeys False, CountRows ''users'', PragmaForeignKeys True]"
proof -
  let ?s0 = "say (SectionDestructive Delete)
               ((scenario (\<lambda>n. n = 1))\<lparr>foreignKeysDisabled := False\<rparr>)"
  have f: "fst (cleanupTry Delete [''users''] ?s0) = Inl (Fault (CountRows ''users''))"
    by (simp add: run_defs)
  have s1: "issued (snd (cleanupTry Delete [''users''] ?s0)) =
              [PragmaForeignKeys False, CountRows ''users'']"
    "console (snd (cleanupTry Delete [''users''] ?s0)) = [SectionDestructive Delete]"
    "foreignKeysDisabled (snd (cleanupTry Delete [''users''] ?s0))"
    "faulty (snd (cleanupTry Delete [''users''] ?s0)) = (\<lambda>n. n = 1)"
    by (simp_all add: run_defs)
  have h: "cleanupTry Delete [''users''] ?s0 =
             (Inl (Fault (CountRows ''users'')), snd (cleanupTry Delete [''users''] ?s0))"
    using f by (simp add: prod_eq_iff)
  note T = destructivePhase_error [OF h]
  have a: "fst (destructivePhase Delete [''users''] (scenario (\<lambda>n. n = 1))) =
             Throws (Fault (CountRows ''users''))"
    using T by blast
  have b: "printedSince (snd (cleanupTry Delete [''users''] ?s0))
             (snd (destructivePhase Delete [''users''] (scenario (\<lambda>n. n = 1)))) =
             [ErrorDuringCleanup (Fault (CountRows ''users'')), Restored]"
    using T s1 by simp
  have c: "issuedSince (snd (cleanupTry Delete [''users''] ?s0))
             (snd (destructivePhase Delete [''users''] (scenario (\<lambda>n. n = 1)))) =
             [PragmaForeignKeys True]"
    using T s1 by simp
  have d: "printedSince (scenario (\<lambda>n. n = 1))
     (snd (destructivePhase Delete [''users''] (scenario (\<lambda>n. n = 1)))) =
     [SectionDestructive Delete, ErrorDuringCleanup (Fault (CountRows ''users'')), Restored]"
    by (simp add: run_defs)
  have e: "issuedSince (scenario (\<lambda>n. n = 1))
     (snd (destructivePhase Delete [''users''] (scenario (\<lambda>n. n = 1)))) =
     [PragmaForeignKeys False, CountRows ''users'', PragmaForeignKeys True]"
    by (simp add: run_defs)
  show ?thesis using a d e by blast
qed

text \<open>
  The claim as stated fails when the rejected statement is the disable itself: \<open>cleanup\<close>
  throws the error again without any attempt to enable enforcement, and the entry point,
  whose handler calls \<open>gracefulExit\<close>, ends with exit status 0.
\<close>

theorem cleanup_error_counterexample:
  "fst (cleanup \<lparr>confirm = True, tables = None, dry_run = False, drop = False,
                 interactive = True\<rparr>
          \<lparr>menuAnswer = None, confirmAnswer = None\<rparr> (scenario (\<lambda>n. n = 3))) =
     Throws (Fault (PragmaForeignKeys False)) \<and>
   issued (snd (cleanup \<lparr>confirm = True, tables = None, dry_run = False, drop = False,
                 interactive = True\<rparr>
          \<lparr>menuAnswer = None, confirmAnswer = None\<rparr> (scenario (\<lambda>n. n = 3)))) =
     [SelectTables, CountRows ''sessions'', CountRows ''users'', PragmaForeignKeys False] \<and>
   fst (entryPoint \<lparr>confirm = True, tables = None, dry_run = False, drop = False,
                 interactive = True\<rparr>
          \<lparr>menuAnswer = None, confirmAnswer = None\<rparr> (scenario (\<lambda>n. n = 3))) = Exits 0"
  by (simp add: entryPoint_def gracefulExit_def gracefulExitEnter_def cleanup_def
      getAllTables_def allTableNames_def chooseTables_def truthy_def displayTableStats_def
      Let_def run_defs)

subsection \<open>The gates of \<^verbatim>\<open>cleanup\<close>\<close>















lemma promptYesNo_any_case: "promptYesNo (Some ''YeS'') False"
  by code_simp


lemma statsReport_promise [simp]:
  "statsReport operation ts (s\<lparr>cleanupPromise := b\<rparr>) = statsReport operation ts s"
  by (simp add: statsReport_def)









lemma requestedNames_ghost: "requestedNames ''ghost'' = [''ghost'']"
  by (simp add: requestedNames_def trim_def isWhiteSpace_def)

text \<open>
  Claim C8, as amended. With \<^verbatim>\<open>--tables=ghost\<close>, when the store holds at least one table,
  none of them named \<open>ghost\<close>, and answers the discovery query, the selection is empty,
  the warning names \<open>ghost\<close>, the line \<^verbatim>\<open>No tables to process.\<close> is printed, and
  \<open>cleanup\<close> ends with exit status 0, having sent the discovery query only and having
  left the store as it is.
\<close>

theorem ghost_selection:
  assumes "tables vals = Some ''ghost''" and "tbls s \<noteq> []"
    and "''ghost'' \<notin> fst ` set (tbls s)" and "\<not> faulty s (length (issued s))"
  shows "filterTables (map fst (tbls s)) (tables vals) = ([], [TablesNotFound [''ghost'']]) \<and>
         fst (cleanup vals user s) = Exits 0 \<and>
         printedSince s (snd (cleanup vals user s)) =
           (if interactive vals \<and> \<not> confirm vals then [Banner] else []) @
           [TablesNotFound [''ghost''], NoTablesToProcess] \<and>
         issuedSince s (snd (cleanup vals user s)) = [SelectTables] \<and>
         tbls (snd (cleanup vals user s)) = tbls s \<and>
         sequenceTable (snd (cleanup vals user s)) = sequenceTable s \<and>
         foreignKeys (snd (cleanup vals user s)) = foreignKeys s"
proof -
  have f: "filterTables (map fst (tbls s)) (Some ''ghost'') = ([], [TablesNotFound [''ghost'']])"
    using assms(3) by (simp add: filterTables_def requestedNames_ghost)
  show ?thesis
    using assms f
    by (simp add: cleanup_def getAllTables_eq chooseTables_def truthy_def displayBanner_def
        say_def printedSince_def issuedSince_def)
qed

theorem ghost_selection_witness:
  "fst (cleanup \<lparr>confirm = True, tables = Some ''ghost'', dry_run = False, drop = False,
                 interactive = True\<rparr>
          \<lparr>menuAnswer = None, confirmAnswer = None\<rparr> (scenario (\<lambda>n. False))) = Exits 0 \<and>
   console (snd (cleanup \<lparr>confirm = True, tables = Some ''ghost'', dry_run = False,
                 drop = False, interactive = True\<rparr>
          \<lparr>menuAnswer = None, confirmAnswer = None\<rparr> (scenario (\<lambda>n. False)))) =
     [TablesNotFound [''ghost''], NoTablesToProcess]"
  using ghost_selection [of "\<lparr>confirm = True, tables = Some ''ghost'', dry_run = False,
      drop = False, interactive = True\<rparr>" "scenario (\<lambda>n. False)"
      "\<lparr>menuAnswer = None, confirmAnswer = None\<rparr>"]
  by (simp add: scenario_def start_def printedSince_def)

text \<open>
  The claim as stated fails on a store without tables: the run ends at the earlier guard
  with the line \<^verbatim>\<open>No tables found in database.\<close>, before any selection.
\<close>

theorem ghost_empty_store_counterexample:
  "cleanup \<lparr>confirm = True, tables = Some ''ghost'', dry_run = False, drop = False,
            interactive = True\<rparr>
     \<lparr>menuAnswer = None, confirmAnswer = None\<rparr> (start [] False True (\<lambda>n. False)) =
   (Exits 0,
    \<lparr>tbls = [], sequenceTable = False, foreignKeys = True, issued = [SelectTables],
     faulty = (\<lambda>n. False), console = [NoTablesFound], isCleaningUp = False,
     cleanupPromise = False, foreignKeysDisabled = False\<rparr>)"
  by (simp add: cleanup_def getAllTables_eq say_def start_def)

end
